theory Spec2Isabelle
  imports Main "HOL-Library.Char_ord" "HOL-Library.List_Lexorder"
begin

section \<open>Errors\<close>

text \<open>
  The exceptions the code under study raises or lets through. The text of a message is
  not modelled; a \<open>ValueError\<close> keeps what it was raised for, and for the key
  checks the set of keys the message prints.
\<close>

datatype msg =
  Decode_error
  | Missing_keys "string set"
  | Invalid_keys "string set"
  | Invalid_degree_type

datatype error = FileNotFoundError | ValueError msg | IndexError

section \<open>utils.py\<close>

subsection \<open>validate_json_structure and load_json\<close>

text \<open>
  A JSON object is a Python \<open>dict\<close> with string keys; it is kept as an association
  list, \<open>entry.keys()\<close> being the first components. The values (\<open>Any\<close>) are of
  an arbitrary type \<open>'v\<close>.
\<close>

type_synonym 'v entry = "(string \<times> 'v) list"

text \<open>
  The loop over \<open>data\<close>: the first entry with a missing key raises, then the first
  with an extra key; the function returns \<open>None\<close> (here \<open>()\<close>) when the loop ends.
\<close>

fun validate_json_structure :: "'v entry list \<Rightarrow> string list \<Rightarrow> error + unit" where
  "validate_json_structure [] required_keys = Inr ()"
| "validate_json_structure (entry # data) required_keys =
     (let entry_keys = set (map fst entry);
          required_keys_set = set required_keys;
          missing_keys = required_keys_set - entry_keys;
          invalid_keys = entry_keys - required_keys_set
      in if missing_keys \<noteq> {} then Inl (ValueError (Missing_keys missing_keys))
         else if invalid_keys \<noteq> {} then Inl (ValueError (Invalid_keys invalid_keys))
         else validate_json_structure data required_keys)"

text \<open>
  \<open>load_json\<close> opens the file and decodes it. The file system and the decoder are not
  part of the repository: \<open>fs\<close> maps a path to the text of the file there
  (\<open>None\<close>: \<open>FileNotFoundError\<close>), \<open>json_load\<close> decodes a text
  (\<open>None\<close>: \<open>JSONDecodeError\<close>). A \<open>ValueError\<close> of the validation is not a
  \<open>JSONDecodeError\<close>, so neither handler catches it.
\<close>

definition load_json ::
  "(string \<Rightarrow> string option) \<Rightarrow> (string \<Rightarrow> 'v entry list option) \<Rightarrow>
   string \<Rightarrow> string list \<Rightarrow> error + 'v entry list" where
  "load_json fs json_load file_path required_keys =
     (case fs file_path of
        None \<Rightarrow> Inl FileNotFoundError
      | Some file \<Rightarrow>
          (case json_load file of
             None \<Rightarrow> Inl (ValueError Decode_error)
           | Some data \<Rightarrow>
               (case validate_json_structure data required_keys of
                  Inl e \<Rightarrow> Inl e
                | Inr _ \<Rightarrow> Inr data)))"

subsection \<open>random.choice and list(set)\<close>

text \<open>
  Two operations of the Python runtime stand between the selector and its result, and
  both are parameters of the model.

  \<open>list(s)\<close> enumerates a set in an order the language does not fix. A function
  \<open>list_of\<close> stands for it; all that is known of it is \<open>is_list_of\<close>: the list
  of a finite set holds exactly its members, each once.

  \<open>random.choice(seq)\<close> raises \<open>IndexError\<close> on an empty sequence and returns
  one of the entries of a non-empty one. A function \<open>choice\<close> stands for one call of
  it (the injected source of randomness); \<open>is_choice\<close> is that contract.
  \<open>random_choice r\<close> is the library's function at the generator's draw \<open>r\<close>:
  the entry at a position below the length.
\<close>

definition is_list_of :: "(string set \<Rightarrow> string list) \<Rightarrow> bool" where
  "is_list_of list_of \<longleftrightarrow>
     (\<forall>S. finite S \<longrightarrow> set (list_of S) = S \<and> distinct (list_of S))"

definition is_choice :: "(string list \<Rightarrow> error + string) \<Rightarrow> bool" where
  "is_choice choice \<longleftrightarrow>
     choice [] = Inl IndexError \<and>
     (\<forall>seq. seq \<noteq> [] \<longrightarrow> (\<exists>x \<in> set seq. choice seq = Inr x))"

definition random_choice :: "nat \<Rightarrow> string list \<Rightarrow> error + string" where
  "random_choice r seq =
     (if seq = [] then Inl IndexError else Inr (seq ! (r mod length seq)))"

subsection \<open>get_unique_value\<close>

text \<open>
  The set \<open>used_values\<close> is mutated in place by \<open>clear()\<close>, also when the call
  then raises; the model returns the outcome together with the set as the call leaves it.
  The list \<open>values\<close> is only read.
\<close>

definition get_unique_value ::
  "(string set \<Rightarrow> string list) \<Rightarrow> (string list \<Rightarrow> error + string) \<Rightarrow>
   string list \<Rightarrow> string set \<Rightarrow> (error + string) \<times> string set" where
  "get_unique_value list_of choice values used_values =
     (let available_values = set values - used_values
      in if available_values = {}
         then (let used_values' = {}; available_values' = set values
               in (choice (list_of available_values'), used_values'))
         else (choice (list_of available_values), used_values))"

text \<open>
  The sequence the selector hands to \<open>random.choice\<close>, named for the statements
  about it; \<open>get_unique_value_choice\<close> below ties it to the selector for every
  \<open>choice\<close>.
\<close>

definition candidate_list ::
  "(string set \<Rightarrow> string list) \<Rightarrow> string list \<Rightarrow> string set \<Rightarrow> string list" where
  "candidate_list list_of values used_values =
     (let available_values = set values - used_values
      in if available_values = {} then list_of (set values) else list_of available_values)"

section \<open>mixins/degree_mixin.py\<close>

text \<open>
  \<open>DegreeProvider\<close> is not among the files; its two methods are fields of a record,
  each a function from the optional degree type to the list of candidates. A method
  that raises is outside the model: every query is answered with a list.
\<close>

record DegreeProvider =
  get_degrees :: "string option \<Rightarrow> string list"
  get_degree_initials :: "string option \<Rightarrow> string list"

record Degree =
  degree_provider :: DegreeProvider
  used_degrees :: "string set"

definition Degree_init :: "DegreeProvider \<Rightarrow> Degree" where
  "Degree_init provider = \<lparr>degree_provider = provider, used_degrees = {}\<rparr>"

text \<open>The private copy of the selector, \<open>Degree._get_unique_value\<close>.\<close>

definition Degree_get_unique_value ::
  "(string set \<Rightarrow> string list) \<Rightarrow> (string list \<Rightarrow> error + string) \<Rightarrow>
   Degree \<Rightarrow> string list \<Rightarrow> string set \<Rightarrow> (error + string) \<times> string set" where
  "Degree_get_unique_value list_of choice self values used_values =
     (let available_values = set values - used_values
      in if available_values = {}
         then (let used_values' = {}; available_values' = set values
               in (choice (list_of available_values'), used_values'))
         else (choice (list_of available_values), used_values))"

text \<open>
  \<open>degree_type\<close> is \<open>str | None\<close>; a string is true when it is not empty. The
  call passes \<open>self._used_degrees\<close> itself to the selector, so what the selector does
  to the set stays done when \<open>random.choice\<close> raises, and \<open>add\<close> is reached only
  when it returns.
\<close>

definition degree ::
  "(string set \<Rightarrow> string list) \<Rightarrow> (string list \<Rightarrow> error + string) \<Rightarrow>
   Degree \<Rightarrow> string option \<Rightarrow> bool \<Rightarrow> (error + string) \<times> Degree" where
  "degree list_of choice self degree_type initial =
     (if (case degree_type of
            None \<Rightarrow> False
          | Some t \<Rightarrow> t \<noteq> [] \<and> t \<notin> set [''undergraduate'', ''masters'', ''doctorate''])
      then (Inl (ValueError Invalid_degree_type), self)
      else
        (let degrees =
               (if initial then get_degree_initials (degree_provider self) degree_type
                else get_degrees (degree_provider self) degree_type)
         in case Degree_get_unique_value list_of choice self degrees (used_degrees self) of
              (Inl e, used) \<Rightarrow> (Inl e, self\<lparr>used_degrees := used\<rparr>)
            | (Inr degree, used) \<Rightarrow>
                (Inr degree, self\<lparr>used_degrees := insert degree used\<rparr>)))"

text \<open>
  Consecutive calls of \<open>degree\<close> with the same arguments on one instance, one
  \<open>choice\<close> for each call; the outcomes in order, and the instance after the last.
\<close>

fun degree_calls ::
  "(string set \<Rightarrow> string list) \<Rightarrow> (string list \<Rightarrow> error + string) list \<Rightarrow>
   Degree \<Rightarrow> string option \<Rightarrow> bool \<Rightarrow> (error + string) list \<times> Degree" where
  "degree_calls list_of [] self degree_type initial = ([], self)"
| "degree_calls list_of (choice # choices) self degree_type initial =
     (let (r, self') = degree list_of choice self degree_type initial;
          (rs, self'') = degree_calls list_of choices self' degree_type initial
      in (r # rs, self''))"

text \<open>The candidates a call of \<open>degree\<close> asks the provider for.\<close>

definition degree_pool :: "Degree \<Rightarrow> string option \<Rightarrow> bool \<Rightarrow> string list" where
  "degree_pool self degree_type initial =
     (if initial then get_degree_initials (degree_provider self) degree_type
      else get_degrees (degree_provider self) degree_type)"

text \<open>
  The arguments the guard at the head of \<open>degree\<close> lets through: its condition,
  negated.
\<close>

definition passes_validation :: "string option \<Rightarrow> bool" where
  "passes_validation degree_type \<longleftrightarrow>
     \<not> (case degree_type of
          None \<Rightarrow> False
        | Some t \<Rightarrow> t \<noteq> [] \<and> t \<notin> set [''undergraduate'', ''masters'', ''doctorate''])"

text \<open>An example provider: it answers every query with the same two lists.\<close>

definition const_provider :: "string list \<Rightarrow> string list \<Rightarrow> DegreeProvider" where
  "const_provider degrees initials =
     \<lparr>get_degrees = (\<lambda>degree_type. degrees), get_degree_initials = (\<lambda>degree_type. initials)\<rparr>"

section \<open>Basic facts\<close>

lemma is_list_of_sorted: "is_list_of sorted_list_of_set"
  by (simp add: is_list_of_def)

lemma is_choice_random_choice: "is_choice (random_choice r)"
  by (auto simp: is_choice_def random_choice_def)

lemma get_unique_value_choice:
  "get_unique_value list_of choice pool used =
     (choice (candidate_list list_of pool used), if set pool \<subseteq> used then {} else used)"
  by (auto simp: get_unique_value_def candidate_list_def Let_def)

lemma Degree_get_unique_value_eq:
  "Degree_get_unique_value list_of choice self pool used = get_unique_value list_of choice pool used"
  by (simp add: Degree_get_unique_value_def get_unique_value_def)

lemma candidate_list_set:
  "is_list_of list_of \<Longrightarrow>
     set (candidate_list list_of pool used) =
       (if set pool \<subseteq> used then set pool else set pool - used)"
  by (auto simp: candidate_list_def is_list_of_def Let_def)

lemma candidate_list_distinct:
  "is_list_of list_of \<Longrightarrow> distinct (candidate_list list_of pool used)"
  by (auto simp: candidate_list_def is_list_of_def Let_def)

lemma candidate_list_nonempty:
  assumes "is_list_of list_of" "pool \<noteq> []"
  shows "candidate_list list_of pool used \<noteq> []"
proof -
  have "set (candidate_list list_of pool used) \<noteq> {}"
    using assms by (auto simp: candidate_list_set)
  then show ?thesis by auto
qed

lemma is_choice_empty: "is_choice choice \<Longrightarrow> choice [] = Inl IndexError"
  by (simp add: is_choice_def)

lemma is_choice_member:
  "is_choice choice \<Longrightarrow> seq \<noteq> [] \<Longrightarrow> \<exists>x \<in> set seq. choice seq = Inr x"
  by (simp add: is_choice_def)

lemma degree_unfold:
  "degree list_of choice self degree_type initial =
     (if \<not> passes_validation degree_type then (Inl (ValueError Invalid_degree_type), self)
      else case get_unique_value list_of choice (degree_pool self degree_type initial)
                  (used_degrees self) of
             (Inl e, used) \<Rightarrow> (Inl e, self\<lparr>used_degrees := used\<rparr>)
           | (Inr d, used) \<Rightarrow> (Inr d, self\<lparr>used_degrees := insert d used\<rparr>))"
  by (simp add: degree_def passes_validation_def degree_pool_def Degree_get_unique_value_eq
      Let_def)

lemma degree_success:
  assumes l: "is_list_of list_of" and c: "is_choice choice"
    and ok: "passes_validation degree_type"
    and ne: "degree_pool self degree_type initial \<noteq> []"
  shows "\<exists>v \<in> set (candidate_list list_of (degree_pool self degree_type initial) (used_degrees self)).
           degree list_of choice self degree_type initial =
             (Inr v, self\<lparr>used_degrees := insert v
                (if set (degree_pool self degree_type initial) \<subseteq> used_degrees self then {}
                 else used_degrees self)\<rparr>)"
proof -
  let ?pool = "degree_pool self degree_type initial"
  let ?cand = "candidate_list list_of ?pool (used_degrees self)"
  have "?cand \<noteq> []" using l ne by (rule candidate_list_nonempty)
  then obtain v where v: "v \<in> set ?cand" "choice ?cand = Inr v"
    using is_choice_member [OF c] by blast
  have "degree list_of choice self degree_type initial =
          (Inr v, self\<lparr>used_degrees := insert v
             (if set ?pool \<subseteq> used_degrees self then {} else used_degrees self)\<rparr>)"
    using ok v(2) by (simp add: degree_unfold get_unique_value_choice)
  with v(1) show ?thesis by blast
qed

lemma degree_provider_kept:
  "degree_provider (snd (degree list_of choice self degree_type initial)) = degree_provider self"
  by (simp add: degree_unfold get_unique_value_choice split: sum.splits)

lemma degree_pool_used [simp]:
  "degree_pool (self\<lparr>used_degrees := u\<rparr>) degree_type initial = degree_pool self degree_type initial"
  by (simp add: degree_pool_def)

lemma degree_calls_fresh:
  assumes l: "is_list_of list_of"
    and ok: "passes_validation degree_type"
  shows "\<forall>c \<in> set choices. is_choice c \<Longrightarrow>
         used_degrees self \<subseteq> set (degree_pool self degree_type initial) \<Longrightarrow>
         card (used_degrees self) + length choices
           \<le> card (set (degree_pool self degree_type initial)) \<Longrightarrow>
         \<exists>vs. degree_calls list_of choices self degree_type initial =
                (map Inr vs, self\<lparr>used_degrees := used_degrees self \<union> set vs\<rparr>) \<and>
              distinct vs \<and> length vs = length choices \<and>
              set vs \<subseteq> set (degree_pool self degree_type initial) - used_degrees self"
proof (induction choices arbitrary: self)
  case Nil
  then show ?case by simp
next
  case (Cons c cs)
  let ?pool = "degree_pool self degree_type initial"
  let ?used = "used_degrees self"
  have fin: "finite ?used" using Cons.prems(2) by (rule finite_subset) simp
  have lt: "card ?used < card (set ?pool)" using Cons.prems(3) by simp
  have notsub: "\<not> set ?pool \<subseteq> ?used"
  proof
    assume "set ?pool \<subseteq> ?used"
    with Cons.prems(2) have "?used = set ?pool" by blast
    with lt show False by simp
  qed
  then have ne: "?pool \<noteq> []" by auto
  have c: "is_choice c" using Cons.prems(1) by simp
  from degree_success [OF l c ok ne] notsub
  obtain v where v: "v \<in> set (candidate_list list_of ?pool ?used)"
    and step: "degree list_of c self degree_type initial =
                 (Inr v, self\<lparr>used_degrees := insert v ?used\<rparr>)"
    by auto
  have vin: "v \<in> set ?pool - ?used"
    using v notsub by (simp add: candidate_list_set [OF l])
  let ?self' = "self\<lparr>used_degrees := insert v ?used\<rparr>"
  have p1: "\<forall>c \<in> set cs. is_choice c" using Cons.prems(1) by simp
  have p2: "used_degrees ?self' \<subseteq> set (degree_pool ?self' degree_type initial)"
    using Cons.prems(2) vin by simp
  have "card (insert v ?used) = Suc (card ?used)" using fin vin by simp
  then have p3: "card (used_degrees ?self') + length cs
                   \<le> card (set (degree_pool ?self' degree_type initial))"
    using Cons.prems(3) by simp
  from Cons.IH [OF p1 p2 p3]
  obtain vs where run: "degree_calls list_of cs ?self' degree_type initial =
        (map Inr vs, ?self'\<lparr>used_degrees := used_degrees ?self' \<union> set vs\<rparr>)"
    and d: "distinct vs" and len: "length vs = length cs"
    and sub: "set vs \<subseteq> set (degree_pool ?self' degree_type initial) - used_degrees ?self'"
    by blast
  have "degree_calls list_of (c # cs) self degree_type initial =
          (map Inr (v # vs), self\<lparr>used_degrees := ?used \<union> set (v # vs)\<rparr>)"
    using step run by simp
  moreover have "distinct (v # vs)" using d sub by auto
  moreover have "length (v # vs) = length (c # cs)" using len by simp
  moreover have "set (v # vs) \<subseteq> set ?pool - ?used" using vin sub by auto
  ultimately show ?case by blast
qed

subsection \<open>Further facts about the model\<close>

lemma is_choice_result:
  assumes "is_choice choice" "choice seq = Inr d"
  shows "d \<in> set seq"
proof (cases "seq = []")
  case True
  with assms show ?thesis by (simp add: is_choice_def)
next
  case False
  then obtain x where "x \<in> set seq" "choice seq = Inr x"
    using is_choice_member [OF assms(1)] by blast
  with assms(2) show ?thesis by simp
qed

lemma is_choice_cases:
  "is_choice choice \<Longrightarrow> choice seq = Inl IndexError \<or> (\<exists>x \<in> set seq. choice seq = Inr x)"
  by (cases "seq = []") (auto simp: is_choice_def)

lemma random_choice_reaches:
  assumes "v \<in> set seq"
  shows "\<exists>r. random_choice r seq = Inr v"
proof -
  from assms obtain i where "i < length seq" "seq ! i = v"
    by (auto simp: in_set_conv_nth)
  then have "random_choice i seq = Inr v"
    by (auto simp: random_choice_def)
  then show ?thesis ..
qed

lemma count_list_distinct:
  "distinct xs \<Longrightarrow> count_list xs x = (if x \<in> set xs then 1 else 0)"
  by (induction xs) auto

lemma validate_ok_iff:
  "validate_json_structure data required_keys = Inr () \<longleftrightarrow>
     (\<forall>entry \<in> set data. set (map fst entry) = set required_keys)"
  by (induction data) (auto simp: Let_def)

lemma validate_error:
  "validate_json_structure data required_keys = Inl e \<Longrightarrow> \<exists>m. e = ValueError m"
  by (induction data) (auto simp: Let_def split: if_splits)

lemma passes_validation_iff:
  "passes_validation degree_type \<longleftrightarrow>
     \<not> (\<exists>t. degree_type = Some t \<and> t \<noteq> [] \<and>
            t \<notin> set [''undergraduate'', ''masters'', ''doctorate''])"
  by (cases degree_type) (simp_all add: passes_validation_def)

lemma degree_calls_exhaust:
  assumes "is_list_of list_of"
    and "\<forall>c \<in> set choices. is_choice c"
    and "passes_validation degree_type"
    and "distinct (degree_pool self degree_type initial)"
    and "used_degrees self = {}"
    and "length choices = length (degree_pool self degree_type initial)"
  shows "\<exists>vs. degree_calls list_of choices self degree_type initial =
                (map Inr vs, self\<lparr>used_degrees := set vs\<rparr>) \<and>
              length vs = length choices \<and>
              set vs = set (degree_pool self degree_type initial)"
proof -
  let ?pool = "degree_pool self degree_type initial"
  have n: "card (set ?pool) = length ?pool" using assms(4) by (rule distinct_card)
  have "used_degrees self \<subseteq> set ?pool" using assms(5) by simp
  moreover have "card (used_degrees self) + length choices \<le> card (set ?pool)"
    using assms(5,6) n by simp
  ultimately obtain vs where
    run: "degree_calls list_of choices self degree_type initial =
            (map Inr vs, self\<lparr>used_degrees := used_degrees self \<union> set vs\<rparr>)"
    and d: "distinct vs" and len: "length vs = length choices"
    and sub: "set vs \<subseteq> set ?pool - used_degrees self"
    using degree_calls_fresh [OF assms(1) assms(3) assms(2)] by blast
  have "card (set vs) = card (set ?pool)"
    using d len assms(6) n by (simp add: distinct_card)
  moreover have "set vs \<subseteq> set ?pool" using sub by blast
  ultimately have "set vs = set ?pool" by (simp add: card_subset_eq)
  with run len assms(5) show ?thesis by auto
qed

lemma degree_exhausted:
  assumes l: "is_list_of list_of" and ok: "passes_validation degree_type"
    and full: "set (degree_pool self degree_type initial) \<subseteq> used_degrees self"
    and c: "choice (list_of (set (degree_pool self degree_type initial))) = Inr v"
  shows "degree list_of choice self degree_type initial = (Inr v, self\<lparr>used_degrees := {v}\<rparr>)"
  using ok full c by (simp add: degree_unfold get_unique_value_choice candidate_list_def)

lemma degree_pool_const:
  "degree_pool (Degree_init (const_provider degrees initials)) degree_type initial =
     (if initial then initials else degrees)"
  by (simp add: degree_pool_def Degree_init_def const_provider_def)

lemma used_degrees_init: "used_degrees (Degree_init provider) = {}"
  by (simp add: Degree_init_def)

lemma passes_validation_None: "passes_validation None"
  by (simp add: passes_validation_def)

lemma degree_single:
  "degree sorted_list_of_set (random_choice 0) (Degree_init (const_provider [''B.Sc.''] []))
     None False =
   (Inr ''B.Sc.'', (Degree_init (const_provider [''B.Sc.''] []))\<lparr>used_degrees := {''B.Sc.''}\<rparr>)"
  by (simp add: degree_unfold get_unique_value_choice candidate_list_def degree_pool_const
      used_degrees_init passes_validation_None random_choice_def)

section \<open>The claims\<close>

subsection \<open>C1\<close>

text \<open>
  C1 (no repeat until exhaustion). An instance whose used-set is empty calls
  \<open>degree\<close> with arguments that pass the guard and select a pool of \<open>N\<close>
  distinct strings. \<open>N\<close> consecutive calls, each with its own well-behaved
  \<open>random.choice\<close>, all return a value, and the \<open>N\<close> values are pairwise
  distinct: they are the pool, in some order. The statement holds for every \<open>N\<close>,
  so in particular for \<open>N \<ge> 2\<close>.
\<close>

theorem no_repeat_until_exhaustion:
  assumes "is_list_of list_of"
    and "\<forall>c \<in> set choices. is_choice c"
    and "passes_validation degree_type"
    and "distinct (degree_pool self degree_type initial)"
    and "used_degrees self = {}"
    and "length choices = length (degree_pool self degree_type initial)"
  shows "\<exists>vs. fst (degree_calls list_of choices self degree_type initial) = map Inr vs \<and>
              length vs = length (degree_pool self degree_type initial) \<and>
              distinct vs \<and>
              set vs = set (degree_pool self degree_type initial)"
proof -
  let ?pool = "degree_pool self degree_type initial"
  have n: "card (set ?pool) = length ?pool" using assms(4) by (rule distinct_card)
  have "used_degrees self \<subseteq> set ?pool" using assms(5) by simp
  moreover have "card (used_degrees self) + length choices \<le> card (set ?pool)"
    using assms(5,6) n by simp
  ultimately obtain vs where
    run: "degree_calls list_of choices self degree_type initial =
            (map Inr vs, self\<lparr>used_degrees := used_degrees self \<union> set vs\<rparr>)"
    and d: "distinct vs" and len: "length vs = length choices"
    and sub: "set vs \<subseteq> set ?pool - used_degrees self"
    using degree_calls_fresh [OF assms(1) assms(3) assms(2)] by blast
  have "card (set vs) = card (set ?pool)"
    using d len assms(6) n by (simp add: distinct_card)
  moreover have "set vs \<subseteq> set ?pool" using sub by blast
  ultimately have "set vs = set ?pool" by (simp add: card_subset_eq)
  with run d len assms(6) show ?thesis by auto
qed

text \<open>
  An instance of the statement above, with every hypothesis discharged.
\<close>

theorem no_repeat_until_exhaustion_witness:
  "is_list_of sorted_list_of_set \<and>
   passes_validation None \<and>
   distinct (degree_pool (Degree_init (const_provider [''B.Sc.'', ''M.Sc.''] [])) None False) \<and>
   (\<exists>vs. fst (degree_calls sorted_list_of_set [random_choice 1, random_choice 0]
                (Degree_init (const_provider [''B.Sc.'', ''M.Sc.''] [])) None False) = map Inr vs \<and>
         length vs = length [''B.Sc.'', ''M.Sc.''] \<and> distinct vs \<and>
         set vs = set [''B.Sc.'', ''M.Sc.''])"
proof -
  let ?self = "Degree_init (const_provider [''B.Sc.'', ''M.Sc.''] [])"
  have pool: "degree_pool ?self None False = [''B.Sc.'', ''M.Sc.'']"
    by (simp add: degree_pool_def Degree_init_def const_provider_def)
  have h1: "is_list_of sorted_list_of_set" by (rule is_list_of_sorted)
  have h2: "\<forall>c \<in> set [random_choice 1, random_choice 0]. is_choice c"
    by (simp add: is_choice_random_choice)
  have h3: "passes_validation None" by (simp add: passes_validation_def)
  have h4: "distinct (degree_pool ?self None False)" by (simp add: pool)
  have h5: "used_degrees ?self = {}" by (simp add: Degree_init_def)
  have h6: "length [random_choice 1, random_choice 0] = length (degree_pool ?self None False)"
    by (simp add: pool)
  have c: "\<exists>vs. fst (degree_calls sorted_list_of_set [random_choice 1, random_choice 0]
                ?self None False) = map Inr vs \<and>
         length vs = length [''B.Sc.'', ''M.Sc.''] \<and> distinct vs \<and>
         set vs = set [''B.Sc.'', ''M.Sc.'']"
    using no_repeat_until_exhaustion [OF h1 h2 h3 h4 h5 h6] unfolding pool .
  show ?thesis by (rule conjI [OF h1 conjI [OF h3 conjI [OF h4 c]]])
qed

text \<open>
  C6 (frame of the selector). The used-set the selector leaves is the empty set when every
  pool value was in it (the reset), and the set it was given otherwise: while some pool
  value is unused the selector changes nothing. The pool is an argument the selector only
  reads; nothing of it is returned or written.
\<close>

subsection \<open>C2\<close>

text \<open>
  C2 (reset on exhaustion). When every pool value is in the used-set, the selector
  returns the empty used-set and hands the enumeration of the whole pool to
  \<open>random.choice\<close>. Hence, after \<open>N\<close> calls of \<open>degree\<close> on a non-empty
  pool of \<open>N\<close> distinct strings, starting from the empty used-set, the used-set is
  the pool; the next call returns a pool value and leaves exactly that value in the
  used-set; every pool value is the result for some well-behaved \<open>random.choice\<close>,
  the value returned by the call before among them.
\<close>

theorem reset_on_exhaustion:
  assumes "is_list_of list_of"
    and "\<forall>c \<in> set choices. is_choice c"
    and "passes_validation degree_type"
    and "distinct (degree_pool self degree_type initial)"
    and "degree_pool self degree_type initial \<noteq> []"
    and "used_degrees self = {}"
    and "length choices = length (degree_pool self degree_type initial)"
  shows "(set pool \<subseteq> used \<longrightarrow>
            get_unique_value list_of choice pool used = (choice (list_of (set pool)), {})) \<and>
         used_degrees (snd (degree_calls list_of choices self degree_type initial)) =
           set (degree_pool self degree_type initial) \<and>
         (\<forall>c. is_choice c \<longrightarrow>
            (\<exists>v \<in> set (degree_pool self degree_type initial).
               degree list_of c (snd (degree_calls list_of choices self degree_type initial))
                 degree_type initial =
               (Inr v, (snd (degree_calls list_of choices self degree_type initial))
                          \<lparr>used_degrees := {v}\<rparr>))) \<and>
         (\<forall>v \<in> set (degree_pool self degree_type initial). \<exists>c. is_choice c \<and>
            degree list_of c (snd (degree_calls list_of choices self degree_type initial))
              degree_type initial =
            (Inr v, (snd (degree_calls list_of choices self degree_type initial))
                       \<lparr>used_degrees := {v}\<rparr>)) \<and>
         (\<exists>vs c. fst (degree_calls list_of choices self degree_type initial) = map Inr vs \<and>
            vs \<noteq> [] \<and> is_choice c \<and>
            degree list_of c (snd (degree_calls list_of choices self degree_type initial))
              degree_type initial =
            (Inr (last vs), (snd (degree_calls list_of choices self degree_type initial))
                       \<lparr>used_degrees := {last vs}\<rparr>))"
proof -
  let ?pool = "degree_pool self degree_type initial"
  let ?run = "degree_calls list_of choices self degree_type initial"
  obtain vs where run: "?run = (map Inr vs, self\<lparr>used_degrees := set vs\<rparr>)"
    and len: "length vs = length choices" and all: "set vs = set ?pool"
    using degree_calls_exhaust [OF assms(1-4) assms(6,7)] by blast
  let ?self = "self\<lparr>used_degrees := set vs\<rparr>"
  have self_N: "snd ?run = ?self" using run by simp
  have pool_N: "degree_pool ?self degree_type initial = ?pool" by simp
  have full: "set (degree_pool ?self degree_type initial) \<subseteq> used_degrees ?self"
    using all by simp
  have seq: "set (list_of (set ?pool)) = set ?pool"
    using assms(1) by (simp add: is_list_of_def)
  have A: "set pool \<subseteq> used \<longrightarrow>
             get_unique_value list_of choice pool used = (choice (list_of (set pool)), {})"
    by (simp add: get_unique_value_choice candidate_list_def)
  have B: "used_degrees ?self = set ?pool" using all by simp
  have C: "\<forall>c. is_choice c \<longrightarrow> (\<exists>v \<in> set ?pool. degree list_of c ?self degree_type initial =
             (Inr v, ?self\<lparr>used_degrees := {v}\<rparr>))"
  proof (intro allI impI)
    fix c assume c: "is_choice c"
    have "list_of (set ?pool) \<noteq> []" using seq assms(5) by auto
    then obtain v where v: "v \<in> set (list_of (set ?pool))" "c (list_of (set ?pool)) = Inr v"
      using is_choice_member [OF c] by blast
    have "degree list_of c ?self degree_type initial = (Inr v, ?self\<lparr>used_degrees := {v}\<rparr>)"
      using assms(1,3) full v(2) by (intro degree_exhausted) (simp_all only: pool_N)
    moreover have "v \<in> set ?pool" using v(1) seq by simp
    ultimately show "\<exists>v \<in> set ?pool. degree list_of c ?self degree_type initial =
             (Inr v, ?self\<lparr>used_degrees := {v}\<rparr>)" ..
  qed
  have D: "\<exists>c. is_choice c \<and> degree list_of c ?self degree_type initial =
             (Inr v, ?self\<lparr>used_degrees := {v}\<rparr>)" if v: "v \<in> set ?pool" for v
  proof -
    from v seq have "v \<in> set (list_of (set ?pool))" by simp
    then obtain r where r: "random_choice r (list_of (set ?pool)) = Inr v"
      using random_choice_reaches by blast
    have "degree list_of (random_choice r) ?self degree_type initial =
            (Inr v, ?self\<lparr>used_degrees := {v}\<rparr>)"
      using assms(1,3) full r by (intro degree_exhausted) (simp_all only: pool_N)
    with is_choice_random_choice [of r] show ?thesis by (intro exI conjI)
  qed
  then have D': "\<forall>v \<in> set ?pool. \<exists>c. is_choice c \<and>
      degree list_of c ?self degree_type initial = (Inr v, ?self\<lparr>used_degrees := {v}\<rparr>)"
    by (intro ballI)
  have ne: "vs \<noteq> []" using all assms(5) by auto
  then have "last vs \<in> set vs" by simp
  then have "last vs \<in> set ?pool" by (simp only: all)
  from D [OF this] obtain c where c: "is_choice c"
    "degree list_of c ?self degree_type initial =
       (Inr (last vs), ?self\<lparr>used_degrees := {last vs}\<rparr>)"
    by blast
  have "fst ?run = map Inr vs" using run by simp
  then have "fst ?run = map Inr vs \<and> vs \<noteq> [] \<and> is_choice c \<and>
      degree list_of c ?self degree_type initial =
        (Inr (last vs), ?self\<lparr>used_degrees := {last vs}\<rparr>)"
    using ne c by (intro conjI)
  then have E: "\<exists>vs c. fst ?run = map Inr vs \<and> vs \<noteq> [] \<and> is_choice c \<and>
      degree list_of c ?self degree_type initial =
        (Inr (last vs), ?self\<lparr>used_degrees := {last vs}\<rparr>)"
    by blast
  show ?thesis unfolding self_N
    by (rule conjI [OF A conjI [OF B conjI [OF C conjI [OF D' E]]]])
qed

text \<open>
  An instance of the statement above, with every hypothesis discharged.
\<close>

theorem reset_on_exhaustion_witness:
  "used_degrees (snd (degree_calls sorted_list_of_set [random_choice 1, random_choice 0]
       (Degree_init (const_provider [''B.Sc.'', ''M.Sc.''] [])) None False)) =
     set [''B.Sc.'', ''M.Sc.''] \<and>
   (\<exists>v \<in> set [''B.Sc.'', ''M.Sc.''].
      degree sorted_list_of_set (random_choice 0)
        (snd (degree_calls sorted_list_of_set [random_choice 1, random_choice 0]
           (Degree_init (const_provider [''B.Sc.'', ''M.Sc.''] [])) None False)) None False =
      (Inr v, (snd (degree_calls sorted_list_of_set [random_choice 1, random_choice 0]
           (Degree_init (const_provider [''B.Sc.'', ''M.Sc.''] [])) None False))
                \<lparr>used_degrees := {v}\<rparr>)) \<and>
   (\<exists>c. is_choice c \<and>
      degree sorted_list_of_set c
        (snd (degree_calls sorted_list_of_set [random_choice 1, random_choice 0]
           (Degree_init (const_provider [''B.Sc.'', ''M.Sc.''] [])) None False)) None False =
      (Inr ''B.Sc.'', (snd (degree_calls sorted_list_of_set [random_choice 1, random_choice 0]
           (Degree_init (const_provider [''B.Sc.'', ''M.Sc.''] [])) None False))
                \<lparr>used_degrees := {''B.Sc.''}\<rparr>))"
proof -
  let ?self = "Degree_init (const_provider [''B.Sc.'', ''M.Sc.''] [])"
  let ?choices = "[random_choice 1, random_choice 0]"
  have pool: "degree_pool ?self None False = [''B.Sc.'', ''M.Sc.'']"
    by (simp add: degree_pool_const)
  have h2: "\<forall>c \<in> set ?choices. is_choice c"
    by (simp add: is_choice_random_choice)
  have h4: "distinct (degree_pool ?self None False)" by (simp add: pool)
  have h5: "degree_pool ?self None False \<noteq> []" by (simp add: pool)
  have h7: "length ?choices = length (degree_pool ?self None False)" by (simp add: pool)
  note t = reset_on_exhaustion [OF is_list_of_sorted h2 passes_validation_None h4 h5
      used_degrees_init h7, unfolded pool]
  from t [THEN conjunct2, THEN conjunct1]
  have a: "used_degrees (snd (degree_calls sorted_list_of_set ?choices ?self None False)) =
     set [''B.Sc.'', ''M.Sc.'']" .
  from t [THEN conjunct2, THEN conjunct2, THEN conjunct1]
  have "\<forall>c. is_choice c \<longrightarrow> (\<exists>v \<in> set [''B.Sc.'', ''M.Sc.''].
      degree sorted_list_of_set c
        (snd (degree_calls sorted_list_of_set ?choices ?self None False)) None False =
      (Inr v, (snd (degree_calls sorted_list_of_set ?choices ?self None False))
                \<lparr>used_degrees := {v}\<rparr>))" .
  then have b: "\<exists>v \<in> set [''B.Sc.'', ''M.Sc.''].
      degree sorted_list_of_set (random_choice 0)
        (snd (degree_calls sorted_list_of_set ?choices ?self None False)) None False =
      (Inr v, (snd (degree_calls sorted_list_of_set ?choices ?self None False))
                \<lparr>used_degrees := {v}\<rparr>)"
    using is_choice_random_choice [of 0] by blast
  from t [THEN conjunct2, THEN conjunct2, THEN conjunct2, THEN conjunct1]
  have "\<forall>v \<in> set [''B.Sc.'', ''M.Sc.'']. \<exists>c. is_choice c \<and>
      degree sorted_list_of_set c
        (snd (degree_calls sorted_list_of_set ?choices ?self None False)) None False =
      (Inr v, (snd (degree_calls sorted_list_of_set ?choices ?self None False))
                \<lparr>used_degrees := {v}\<rparr>)" .
  moreover have "''B.Sc.'' \<in> set [''B.Sc.'', ''M.Sc.'']" by simp
  ultimately have c: "\<exists>c. is_choice c \<and>
      degree sorted_list_of_set c
        (snd (degree_calls sorted_list_of_set ?choices ?self None False)) None False =
      (Inr ''B.Sc.'', (snd (degree_calls sorted_list_of_set ?choices ?self None False))
                \<lparr>used_degrees := {''B.Sc.''}\<rparr>)"
    by (rule bspec)
  show ?thesis by (rule conjI [OF a conjI [OF b c]])
qed

subsection \<open>C3\<close>

text \<open>
  C3 (the result is in the pool). For a non-empty pool and any used-set, also one with
  strings that are not in the pool, the selector returns a member of the pool; and a call
  of \<open>degree\<close> that returns a value returns a member of the list the provider
  gave it.
\<close>

theorem pool_membership:
  assumes "is_list_of list_of" and "is_choice choice"
  shows "(pool \<noteq> [] \<longrightarrow>
            (\<exists>v \<in> set pool. fst (get_unique_value list_of choice pool used) = Inr v)) \<and>
         (degree list_of choice self degree_type initial = (Inr d, self') \<longrightarrow>
            d \<in> set (degree_pool self degree_type initial))"
proof (intro conjI impI)
  assume "pool \<noteq> []"
  then have "candidate_list list_of pool used \<noteq> []"
    using assms(1) by (simp add: candidate_list_nonempty)
  then obtain v where "v \<in> set (candidate_list list_of pool used)"
    and "choice (candidate_list list_of pool used) = Inr v"
    using is_choice_member [OF assms(2)] by blast
  moreover have "set (candidate_list list_of pool used) \<subseteq> set pool"
    by (auto simp: candidate_list_set [OF assms(1)] split: if_splits)
  ultimately show "\<exists>v \<in> set pool. fst (get_unique_value list_of choice pool used) = Inr v"
    by (auto simp: get_unique_value_choice)
next
  let ?pool = "degree_pool self degree_type initial"
  assume "degree list_of choice self degree_type initial = (Inr d, self')"
  then have "choice (candidate_list list_of ?pool (used_degrees self)) = Inr d"
    by (auto simp: degree_unfold get_unique_value_choice split: if_splits sum.splits)
  then have "d \<in> set (candidate_list list_of ?pool (used_degrees self))"
    using assms(2) by (simp add: is_choice_result)
  then show "d \<in> set ?pool"
    by (auto simp: candidate_list_set [OF assms(1)] split: if_splits)
qed

text \<open>
  An instance of the statement above, with every hypothesis discharged.
\<close>

theorem pool_membership_witness:
  "is_list_of sorted_list_of_set \<and> is_choice (random_choice 0) \<and>
   (\<exists>v \<in> set [''B.Sc.'']. fst (get_unique_value sorted_list_of_set (random_choice 0)
       [''B.Sc.''] {''B.Sc.'', ''LL.B.''}) = Inr v) \<and>
   degree sorted_list_of_set (random_choice 0) (Degree_init (const_provider [''B.Sc.''] []))
     None False =
   (Inr ''B.Sc.'', (Degree_init (const_provider [''B.Sc.''] []))\<lparr>used_degrees := {''B.Sc.''}\<rparr>) \<and>
   ''B.Sc.'' \<in> set (degree_pool (Degree_init (const_provider [''B.Sc.''] [])) None False)"
proof -
  note t = pool_membership [OF is_list_of_sorted is_choice_random_choice [of 0]]
  have "[''B.Sc.''] \<noteq> []" by simp
  with t [of "[''B.Sc.'']"] have a: "\<exists>v \<in> set [''B.Sc.''].
      fst (get_unique_value sorted_list_of_set (random_choice 0)
       [''B.Sc.''] {''B.Sc.'', ''LL.B.''}) = Inr v"
    by blast
  from t degree_single
  have b: "''B.Sc.'' \<in> set (degree_pool (Degree_init (const_provider [''B.Sc.''] [])) None False)"
    by blast
  show ?thesis
    by (rule conjI [OF is_list_of_sorted conjI [OF is_choice_random_choice
          conjI [OF a conjI [OF degree_single b]]]])
qed

subsection \<open>C4\<close>

text \<open>
  C4 (empty pool), as the code has it. \<open>degree\<close> has no guard of its own for an
  empty pool. With arguments that pass validation and select no candidate, it calls the
  selector, which clears the used-set and hands the empty list to \<open>random.choice\<close>;
  the \<open>IndexError\<close> raised there is what the caller sees. No value is returned and
  none is recorded.
\<close>

theorem empty_pool_index_error:
  assumes "is_list_of list_of" and "is_choice choice"
    and "passes_validation degree_type"
    and "degree_pool self degree_type initial = []"
  shows "degree list_of choice self degree_type initial =
           (Inl IndexError, self\<lparr>used_degrees := {}\<rparr>)"
proof -
  have "set (list_of {}) = {}" using assms(1) by (simp add: is_list_of_def)
  then have "list_of {} = []" by simp
  then show ?thesis
    using assms(2-4)
    by (simp add: degree_unfold get_unique_value_choice candidate_list_def is_choice_empty)
qed

text \<open>
  An instance of the statement above, with every hypothesis discharged.
\<close>

theorem empty_pool_index_error_witness:
  "is_list_of sorted_list_of_set \<and> is_choice (random_choice 0) \<and>
   passes_validation (Some ''masters'') \<and>
   degree_pool (Degree_init (const_provider [] [])) (Some ''masters'') False = [] \<and>
   degree sorted_list_of_set (random_choice 0) (Degree_init (const_provider [] []))
     (Some ''masters'') False =
   (Inl IndexError, (Degree_init (const_provider [] []))\<lparr>used_degrees := {}\<rparr>)"
proof -
  have ok: "passes_validation (Some ''masters'')" by (simp add: passes_validation_def)
  have e: "degree_pool (Degree_init (const_provider [] [])) (Some ''masters'') False = []"
    by (simp add: degree_pool_const)
  show ?thesis
    by (rule conjI [OF is_list_of_sorted conjI [OF is_choice_random_choice conjI [OF ok
          conjI [OF e empty_pool_index_error [OF is_list_of_sorted is_choice_random_choice
            ok e]]]]])
qed

text \<open>
  The claim as stated asks for the error before the selector runs. Here the first call
  records \<open>B.Sc.\<close>; the second asks for initials, of which the provider has none, and
  fails with \<open>IndexError\<close> after the selector has emptied the used-set.
\<close>

theorem empty_pool_counterexample:
  "used_degrees (snd (degree sorted_list_of_set (random_choice 0)
       (Degree_init (const_provider [''B.Sc.''] [])) None False)) = {''B.Sc.''} \<and>
   degree_pool (snd (degree sorted_list_of_set (random_choice 0)
       (Degree_init (const_provider [''B.Sc.''] [])) None False)) None True = [] \<and>
   degree sorted_list_of_set (random_choice 0)
     (snd (degree sorted_list_of_set (random_choice 0)
       (Degree_init (const_provider [''B.Sc.''] [])) None False)) None True =
   (Inl IndexError, Degree_init (const_provider [''B.Sc.''] []))"
  by (simp add: degree_single degree_unfold get_unique_value_choice candidate_list_def
      degree_pool_const passes_validation_None random_choice_def)
    (simp add: Degree_init_def)

subsection \<open>C5\<close>

text \<open>
  C5 (validation of the filter), as the code has it. The guard tests the truth value of
  \<open>degree_type\<close> first, so \<open>degree\<close> fails with \<open>ValueError\<close> exactly when
  \<open>degree_type\<close> is a non-empty string outside the three recognized values; the call
  then leaves the instance as it was, and nothing is selected. (\<open>random.choice\<close> is
  assumed to raise nothing but its \<open>IndexError\<close>.)
\<close>

theorem degree_type_validation:
  assumes "is_choice choice"
  shows "((\<exists>m. fst (degree list_of choice self degree_type initial) = Inl (ValueError m)) \<longleftrightarrow>
            (\<exists>t. degree_type = Some t \<and> t \<noteq> [] \<and>
                 t \<notin> set [''undergraduate'', ''masters'', ''doctorate''])) \<and>
         ((\<exists>t. degree_type = Some t \<and> t \<noteq> [] \<and>
                 t \<notin> set [''undergraduate'', ''masters'', ''doctorate'']) \<longrightarrow>
            degree list_of choice self degree_type initial =
              (Inl (ValueError Invalid_degree_type), self))"
proof (cases "passes_validation degree_type")
  case True
  let ?seq = "candidate_list list_of (degree_pool self degree_type initial) (used_degrees self)"
  have "\<not> (\<exists>m. fst (degree list_of choice self degree_type initial) = Inl (ValueError m))"
    using True is_choice_cases [OF assms, of ?seq]
    by (auto simp: degree_unfold get_unique_value_choice)
  then show ?thesis using True by (simp only: passes_validation_iff) blast
next
  case False
  then have "degree list_of choice self degree_type initial =
               (Inl (ValueError Invalid_degree_type), self)"
    by (simp add: degree_unfold)
  then show ?thesis using False by (simp only: passes_validation_iff) auto
qed

text \<open>
  An instance of the statement above, with every hypothesis discharged.
\<close>

theorem degree_type_validation_witness:
  "is_choice (random_choice 0) \<and>
   (\<exists>m. fst (degree sorted_list_of_set (random_choice 0)
       (Degree_init (const_provider [''B.Sc.''] [])) (Some ''phd'') False) = Inl (ValueError m)) \<and>
   degree sorted_list_of_set (random_choice 0) (Degree_init (const_provider [''B.Sc.''] []))
     (Some ''phd'') False =
   (Inl (ValueError Invalid_degree_type), Degree_init (const_provider [''B.Sc.''] []))"
proof -
  have bad: "\<exists>t. Some ''phd'' = Some t \<and> t \<noteq> [] \<and>
                t \<notin> set [''undergraduate'', ''masters'', ''doctorate'']"
    by simp
  note t = degree_type_validation [OF is_choice_random_choice [of 0],
      of sorted_list_of_set "Degree_init (const_provider [''B.Sc.''] [])" "Some ''phd''" False]
  from t [THEN conjunct1] bad
  have a: "\<exists>m. fst (degree sorted_list_of_set (random_choice 0)
       (Degree_init (const_provider [''B.Sc.''] [])) (Some ''phd'') False) = Inl (ValueError m)"
    by (rule iffD2)
  from t [THEN conjunct2] bad
  have b: "degree sorted_list_of_set (random_choice 0)
       (Degree_init (const_provider [''B.Sc.''] [])) (Some ''phd'') False =
     (Inl (ValueError Invalid_degree_type), Degree_init (const_provider [''B.Sc.''] []))"
    by (rule mp)
  show ?thesis by (rule conjI [OF is_choice_random_choice conjI [OF a b]])
qed

text \<open>
  The claim as stated has every string outside the enumeration rejected. The empty string
  is outside it and is let through like \<open>None\<close>: the call selects and records a
  degree.
\<close>

theorem degree_type_validation_counterexample:
  "'''' \<notin> set [''undergraduate'', ''masters'', ''doctorate''] \<and>
   degree sorted_list_of_set (random_choice 0) (Degree_init (const_provider [''B.Sc.''] []))
     (Some '''') False =
   (Inr ''B.Sc.'', (Degree_init (const_provider [''B.Sc.''] []))\<lparr>used_degrees := {''B.Sc.''}\<rparr>)"
  by (simp add: degree_unfold get_unique_value_choice candidate_list_def degree_pool_const
      used_degrees_init passes_validation_def random_choice_def)

subsection \<open>C6\<close>

text \<open>
  C6 (frame of the selector). The used-set the selector leaves is the empty set when every
  pool value was in it (the reset), and the set it was given otherwise: while some pool
  value is unused the selector changes nothing. The pool is an argument the selector only
  reads; nothing of it is returned or written.
\<close>

theorem selector_frame:
  "snd (get_unique_value list_of choice pool used) = (if set pool \<subseteq> used then {} else used)"
  by (simp add: get_unique_value_choice)

text \<open>
  C10 (the two copies of the selector). \<open>utils.get_unique_value\<close> and
  \<open>Degree._get_unique_value\<close> agree for every pool, used-set, enumeration and
  choice function, on the outcome and on the used-set they leave.
\<close>

subsection \<open>C7\<close>

text \<open>
  C7 (duplicates and order of the pool do not matter). Two pools with the same distinct
  values, whatever the order and the repetitions, give the selector the same set of
  candidates, in lists of the same length in which every candidate stands at exactly one
  position. A choice that is uniform over the positions of the list it is given is
  therefore uniform over the distinct values, and the same for both pools.
\<close>

theorem duplicate_invariance:
  assumes "is_list_of list_of" and "set pool = set pool'"
  shows "set (candidate_list list_of pool used) = set (candidate_list list_of pool' used) \<and>
         length (candidate_list list_of pool used) = length (candidate_list list_of pool' used) \<and>
         count_list (candidate_list list_of pool used) v =
           (if v \<in> set (candidate_list list_of pool used) then 1 else 0) \<and>
         count_list (candidate_list list_of pool' used) v =
           (if v \<in> set (candidate_list list_of pool used) then 1 else 0) \<and>
         fst (get_unique_value list_of choice pool used) =
           choice (candidate_list list_of pool used) \<and>
         fst (get_unique_value list_of choice pool' used) =
           choice (candidate_list list_of pool' used)"
proof -
  have s: "set (candidate_list list_of pool used) = set (candidate_list list_of pool' used)"
    using assms by (simp add: candidate_list_set)
  have d: "distinct (candidate_list list_of pool used)"
    "distinct (candidate_list list_of pool' used)"
    using assms(1) by (simp_all add: candidate_list_distinct)
  have "length (candidate_list list_of pool used) = card (set (candidate_list list_of pool used))"
    using d(1) by (simp add: distinct_card)
  moreover have "length (candidate_list list_of pool' used) =
      card (set (candidate_list list_of pool' used))"
    using d(2) by (simp add: distinct_card)
  ultimately have len: "length (candidate_list list_of pool used) =
      length (candidate_list list_of pool' used)"
    using s by simp
  have c: "count_list (candidate_list list_of pool used) v =
           (if v \<in> set (candidate_list list_of pool used) then 1 else 0)"
    using d(1) by (rule count_list_distinct)
  have c': "count_list (candidate_list list_of pool' used) v =
           (if v \<in> set (candidate_list list_of pool used) then 1 else 0)"
    using d(2) s by (simp add: count_list_distinct)
  show ?thesis using s len c c' by (simp add: get_unique_value_choice)
qed

text \<open>
  An instance of the statement above, with every hypothesis discharged.
\<close>

theorem duplicate_invariance_witness:
  "is_list_of sorted_list_of_set \<and>
   set [''B.Sc.'', ''M.Sc.'', ''B.Sc.''] = set [''M.Sc.'', ''B.Sc.''] \<and>
   set (candidate_list sorted_list_of_set [''B.Sc.'', ''M.Sc.'', ''B.Sc.''] {}) =
     set (candidate_list sorted_list_of_set [''M.Sc.'', ''B.Sc.''] {}) \<and>
   length (candidate_list sorted_list_of_set [''B.Sc.'', ''M.Sc.'', ''B.Sc.''] {}) =
     length (candidate_list sorted_list_of_set [''M.Sc.'', ''B.Sc.''] {}) \<and>
   count_list (candidate_list sorted_list_of_set [''B.Sc.'', ''M.Sc.'', ''B.Sc.''] {}) ''B.Sc.'' = 1 \<and>
   count_list (candidate_list sorted_list_of_set [''M.Sc.'', ''B.Sc.''] {}) ''B.Sc.'' = 1"
proof -
  have eq: "set [''B.Sc.'', ''M.Sc.'', ''B.Sc.''] = set [''M.Sc.'', ''B.Sc.'']" by auto
  have m: "''B.Sc.'' \<in> set (candidate_list sorted_list_of_set [''B.Sc.'', ''M.Sc.'', ''B.Sc.''] {})"
    by (simp add: candidate_list_set [OF is_list_of_sorted])
  note t = duplicate_invariance [OF is_list_of_sorted eq, of "{}" "''B.Sc.''"]
  from t m have "set (candidate_list sorted_list_of_set [''B.Sc.'', ''M.Sc.'', ''B.Sc.''] {}) =
     set (candidate_list sorted_list_of_set [''M.Sc.'', ''B.Sc.''] {}) \<and>
   length (candidate_list sorted_list_of_set [''B.Sc.'', ''M.Sc.'', ''B.Sc.''] {}) =
     length (candidate_list sorted_list_of_set [''M.Sc.'', ''B.Sc.''] {}) \<and>
   count_list (candidate_list sorted_list_of_set [''B.Sc.'', ''M.Sc.'', ''B.Sc.''] {}) ''B.Sc.'' = 1 \<and>
   count_list (candidate_list sorted_list_of_set [''M.Sc.'', ''B.Sc.''] {}) ''B.Sc.'' = 1"
    by (simp only: if_True)
  then show ?thesis by (rule conjI [OF is_list_of_sorted conjI [OF eq]])
qed

subsection \<open>C8\<close>

text \<open>
  C8 (structural validation). \<open>validate_json_structure\<close> returns normally exactly
  when the key set of every entry equals the set of required keys, and raises
  \<open>ValueError\<close> exactly when some entry has a different key set (a key missing or a
  key too many). For a file that exists and decodes to the list \<open>data\<close>,
  \<open>load_json\<close> returns \<open>data\<close> itself in the first case and raises that
  \<open>ValueError\<close> in the second. The empty list is accepted.
\<close>

theorem structural_validation:
  "(validate_json_structure data required_keys = Inr () \<longleftrightarrow>
      (\<forall>entry \<in> set data. set (map fst entry) = set required_keys)) \<and>
   ((\<exists>m. validate_json_structure data required_keys = Inl (ValueError m)) \<longleftrightarrow>
      (\<exists>entry \<in> set data. set (map fst entry) \<noteq> set required_keys)) \<and>
   (fs file_path = Some file \<and> json_load file = Some data \<longrightarrow>
      (load_json fs json_load file_path required_keys = Inr data \<longleftrightarrow>
         (\<forall>entry \<in> set data. set (map fst entry) = set required_keys)) \<and>
      ((\<exists>m. load_json fs json_load file_path required_keys = Inl (ValueError m)) \<longleftrightarrow>
         (\<exists>entry \<in> set data. set (map fst entry) \<noteq> set required_keys)))"
proof -
  let ?ok = "\<forall>entry \<in> set data. set (map fst entry) = set required_keys"
  have a: "validate_json_structure data required_keys = Inr () \<longleftrightarrow> ?ok"
    by (rule validate_ok_iff)
  have b: "(\<exists>m. validate_json_structure data required_keys = Inl (ValueError m)) \<longleftrightarrow> \<not> ?ok"
  proof (cases "validate_json_structure data required_keys")
    case (Inl e)
    then show ?thesis using a validate_error [OF Inl] by auto
  next
    case (Inr u)
    then show ?thesis using a by auto
  qed
  have c: "load_json fs json_load file_path required_keys = Inr data \<longleftrightarrow> ?ok"
    if "fs file_path = Some file" "json_load file = Some data"
    using that a by (auto simp: load_json_def split: sum.splits)
  have d: "(\<exists>m. load_json fs json_load file_path required_keys = Inl (ValueError m)) \<longleftrightarrow> \<not> ?ok"
    if "fs file_path = Some file" "json_load file = Some data"
    using that a b by (auto simp: load_json_def split: sum.splits)
  show ?thesis using a b c d by blast
qed

text \<open>
  An instance of the statement above, with every hypothesis discharged.
\<close>

theorem structural_validation_witness:
  "validate_json_structure [[(''name'', ''Seyi''), (''tribe'', ''yoruba'')]] [''tribe'', ''name'']
     = Inr () \<and>
   (\<exists>m. validate_json_structure [[(''name'', ''Seyi'')]] [''tribe'', ''name'']
      = Inl (ValueError m)) \<and>
   (\<exists>m. validate_json_structure [[(''name'', ''Seyi''), (''tribe'', ''yoruba''), (''age'', ''3'')]]
      [''tribe'', ''name''] = Inl (ValueError m)) \<and>
   load_json (\<lambda>p. Some ''text'') (\<lambda>f. Some [[(''name'', ''Seyi''), (''tribe'', ''yoruba'')]])
     ''first_names.json'' [''tribe'', ''name''] =
     Inr [[(''name'', ''Seyi''), (''tribe'', ''yoruba'')]]"
proof -
  let ?req = "[''tribe'', ''name'']"
  let ?good = "[[(''name'', ''Seyi''), (''tribe'', ''yoruba'')]]"
  let ?short = "[[(''name'', ''Seyi'')]]"
  let ?long = "[[(''name'', ''Seyi''), (''tribe'', ''yoruba''), (''age'', ''3'')]]"
  have g: "\<forall>entry \<in> set ?good. set (map fst entry) = set ?req"
    by (simp add: insert_commute)
  have "set (map fst [(''name'', ''Seyi'')]) \<noteq> set ?req"
  proof
    assume eq: "set (map fst [(''name'', ''Seyi'')]) = set ?req"
    have "''tribe'' \<in> set ?req" by simp
    then have "''tribe'' \<in> set (map fst [(''name'', ''Seyi'')])" by (simp only: eq)
    then show False by simp
  qed
  then have s: "\<exists>entry \<in> set ?short. set (map fst entry) \<noteq> set ?req" by simp
  have "set (map fst [(''name'', ''Seyi''), (''tribe'', ''yoruba''), (''age'', ''3'')]) \<noteq> set ?req"
  proof
    assume eq: "set (map fst [(''name'', ''Seyi''), (''tribe'', ''yoruba''), (''age'', ''3'')]) =
      set ?req"
    have "''age'' \<in> set (map fst [(''name'', ''Seyi''), (''tribe'', ''yoruba''), (''age'', ''3'')])"
      by simp
    then have "''age'' \<in> set ?req" by (simp only: eq)
    then show False by simp
  qed
  then have l: "\<exists>entry \<in> set ?long. set (map fst entry) \<noteq> set ?req" by simp
  have a: "validate_json_structure ?good ?req = Inr ()"
    by (rule structural_validation [THEN conjunct1, THEN iffD2, OF g])
  have b: "\<exists>m. validate_json_structure ?short ?req = Inl (ValueError m)"
    by (rule structural_validation [THEN conjunct2, THEN conjunct1, THEN iffD2, OF s])
  have c: "\<exists>m. validate_json_structure ?long ?req = Inl (ValueError m)"
    by (rule structural_validation [THEN conjunct2, THEN conjunct1, THEN iffD2, OF l])
  have f: "(\<lambda>p. Some ''text'') ''first_names.json'' = Some ''text'' \<and>
           (\<lambda>f. Some ?good) ''text'' = Some ?good"
    by simp
  have d: "load_json (\<lambda>p. Some ''text'') (\<lambda>f. Some ?good) ''first_names.json'' ?req = Inr ?good"
    by (rule structural_validation [of ?good ?req "\<lambda>p. Some ''text''" "''first_names.json''"
          "''text''" "\<lambda>f. Some ?good", THEN conjunct2, THEN conjunct2, THEN mp, OF f,
          THEN conjunct1, THEN iffD2, OF g])
  show ?thesis by (rule conjI [OF a conjI [OF b conjI [OF c d]]])
qed

subsection \<open>C9\<close>

text \<open>
  C9 (the selector returns on a non-empty pool). For a non-empty pool and any used-set
  whatsoever, the list handed to \<open>random.choice\<close> is not empty, so the selector
  returns a value: the \<open>IndexError\<close> of an empty choice cannot occur.
\<close>

theorem selector_total:
  assumes "is_list_of list_of" and "is_choice choice" and "pool \<noteq> []"
  shows "candidate_list list_of pool used \<noteq> [] \<and>
         fst (get_unique_value list_of choice pool used) =
           choice (candidate_list list_of pool used) \<and>
         (\<exists>v. fst (get_unique_value list_of choice pool used) = Inr v)"
proof -
  have ne: "candidate_list list_of pool used \<noteq> []"
    using assms(1,3) by (rule candidate_list_nonempty)
  then obtain v where "choice (candidate_list list_of pool used) = Inr v"
    using is_choice_member [OF assms(2)] by blast
  with ne show ?thesis by (simp add: get_unique_value_choice)
qed

text \<open>
  An instance of the statement above, with every hypothesis discharged.
\<close>

theorem selector_total_witness:
  "is_list_of sorted_list_of_set \<and> is_choice (random_choice 0) \<and> [''B.Sc.''] \<noteq> [] \<and>
   candidate_list sorted_list_of_set [''B.Sc.''] {''B.Sc.'', ''LL.B.''} \<noteq> [] \<and>
   fst (get_unique_value sorted_list_of_set (random_choice 0) [''B.Sc.''] {''B.Sc.'', ''LL.B.''}) =
     random_choice 0 (candidate_list sorted_list_of_set [''B.Sc.''] {''B.Sc.'', ''LL.B.''}) \<and>
   (\<exists>v. fst (get_unique_value sorted_list_of_set (random_choice 0) [''B.Sc.'']
       {''B.Sc.'', ''LL.B.''}) = Inr v)"
proof -
  have ne: "[''B.Sc.''] \<noteq> []" by simp
  show ?thesis
    by (rule conjI [OF is_list_of_sorted conjI [OF is_choice_random_choice conjI [OF ne
          selector_total [OF is_list_of_sorted is_choice_random_choice ne]]]])
qed

subsection \<open>C10\<close>

text \<open>
  C10 (the two copies of the selector). \<open>utils.get_unique_value\<close> and
  \<open>Degree._get_unique_value\<close> agree for every pool, used-set, enumeration and
  choice function, on the outcome and on the used-set they leave.
\<close>

theorem selector_copies_equal:
  "Degree_get_unique_value list_of choice self pool used =
     get_unique_value list_of choice pool used"
  by (simp add: Degree_get_unique_value_def get_unique_value_def)

end
